theory Spec2Isabelle
  imports Main "HOL-Library.Char_ord" "HOL-Library.List_Lexorder" "HOL-Library.Product_Lexorder"
    "HOL-Library.Multiset"
begin

section \<open>Data model (types.ts)\<close>

text \<open>
  The three workflow stages and the three priorities are closed string unions in the
  source; they become datatypes: NotStarted, InProgress, Done for the three statuses in
  the order of the STATUSES array, and Low, Medium, High for the priorities in the order
  of their weights 1, 2, 3. Strings are byte strings; a literal outside ASCII is written
  as its UTF-8 bytes where the code compares against it.
\<close>

datatype status = NotStarted | InProgress | Done

datatype priority = Low | Medium | High

record subTask =
  subTask_text :: string
  subTask_completed :: bool

record task =
  filePath :: string
  title :: string
  created :: string
  updated :: string
  status :: status
  priority :: priority
  due :: string
  assignee :: string
  subTasks :: "subTask list"
  memo :: string

datatype sort_option =
  CreatedDesc | CreatedAsc | UpdatedDesc | UpdatedAsc
  | DueAsc | DueDesc | PriorityDesc | PriorityAsc

record sync_result =
  pulled :: bool
  pushed :: bool
  conflicts :: bool
  message :: string

section \<open>SortEngine (useTasks.ts, sortTasks)\<close>

definition PRIORITY_WEIGHT :: "priority \<Rightarrow> int" where
  "PRIORITY_WEIGHT p = (case p of High \<Rightarrow> 3 | Medium \<Rightarrow> 2 | Low \<Rightarrow> 1)"

text \<open>
  String.prototype.localeCompare belongs to the platform, not to the repository: it
  compares by the locale's collation, not by code units. The model is the root collation
  on ASCII, compared level by level. First level: white space, then punctuation and
  symbols in the collation's own order, then digits, then letters without regard to case.
  Last level: a lower-case letter before the same letter in upper case. Not modelled:
  control characters, which the model orders by byte below white space, and bytes
  outside ASCII, which it orders by byte above the letters.
\<close>

definition isDigit :: "char \<Rightarrow> bool" where
  "isDigit c \<longleftrightarrow> CHR ''0'' \<le> c \<and> c \<le> CHR ''9''"

definition isLower :: "char \<Rightarrow> bool" where
  "isLower c \<longleftrightarrow> CHR ''a'' \<le> c \<and> c \<le> CHR ''z''"

definition isUpper :: "char \<Rightarrow> bool" where
  "isUpper c \<longleftrightarrow> CHR ''A'' \<le> c \<and> c \<le> CHR ''Z''"

text \<open>
  White space, punctuation and symbols of ASCII in collation order: tab, line feed,
  vertical tab, form feed, carriage return, space, then
  \<^verbatim>\<open>_ - , ; : ! ? . ' " ( ) [ ] { } @ * / \ & # % ` ^ + < = > | ~ $\<close>.
\<close>

definition punctuationOrder :: string where
  "punctuationOrder =
     [CHR 0x09, CHR 0x0A, CHR 0x0B, CHR 0x0C, CHR 0x0D, CHR 0x20,
      CHR 0x5F, CHR 0x2D, CHR 0x2C, CHR 0x3B, CHR 0x3A, CHR 0x21, CHR 0x3F, CHR 0x2E,
      CHR 0x27, CHR 0x22, CHR 0x28, CHR 0x29, CHR 0x5B, CHR 0x5D, CHR 0x7B, CHR 0x7D,
      CHR 0x40, CHR 0x2A, CHR 0x2F, CHR 0x5C, CHR 0x26, CHR 0x23, CHR 0x25,
      CHR 0x60, CHR 0x5E, CHR 0x2B, CHR 0x3C, CHR 0x3D, CHR 0x3E, CHR 0x7C, CHR 0x7E,
      CHR 0x24]"

fun indexOf :: "char \<Rightarrow> string \<Rightarrow> nat" where
  "indexOf c [] = 0"
| "indexOf c (x # xs) = (if x = c then 0 else Suc (indexOf c xs))"

definition primaryWeight :: "char \<Rightarrow> nat" where
  "primaryWeight c =
     (if isLower c then 400 + (of_char c - 97)
      else if isUpper c then 400 + (of_char c - 65)
      else if isDigit c then 300 + (of_char c - 48)
      else if c \<in> set punctuationOrder then 200 + indexOf c punctuationOrder
      else if of_char c < (128 :: nat) then of_char c
      else 500 + of_char c)"

definition caseWeight :: "char \<Rightarrow> nat" where
  "caseWeight c = (if isUpper c then 1 else 0)"

definition collationKey :: "string \<Rightarrow> nat list \<times> nat list" where
  "collationKey s = (map primaryWeight s, map caseWeight s)"

text \<open>Negative, zero or positive as the receiver sorts before, with or after the argument.\<close>

definition localeCompare :: "string \<Rightarrow> string \<Rightarrow> int" where
  "localeCompare a b =
     (if collationKey a < collationKey b then - 1
      else if collationKey b < collationKey a then 1 else 0)"


text \<open>The characters an ISO date is made of.\<close>

definition dateChar :: "char \<Rightarrow> bool" where
  "dateChar c \<longleftrightarrow> isDigit c \<or> c = CHR ''-''"

text \<open>The comparator handed to Array.prototype.sort, one case per sort option.\<close>

definition compareTasks :: "sort_option \<Rightarrow> task \<Rightarrow> task \<Rightarrow> int" where
  "compareTasks opt a b =
     (case opt of
        CreatedDesc \<Rightarrow> localeCompare (created b) (created a)
      | CreatedAsc \<Rightarrow> localeCompare (created a) (created b)
      | UpdatedDesc \<Rightarrow> localeCompare (updated b) (updated a)
      | UpdatedAsc \<Rightarrow> localeCompare (updated a) (updated b)
      | DueAsc \<Rightarrow>
          (if due a = ''-'' then 1
           else if due b = ''-'' then - 1
           else localeCompare (due a) (due b))
      | DueDesc \<Rightarrow>
          (if due a = ''-'' then 1
           else if due b = ''-'' then - 1
           else localeCompare (due b) (due a))
      | PriorityDesc \<Rightarrow> PRIORITY_WEIGHT (priority b) - PRIORITY_WEIGHT (priority a)
      | PriorityAsc \<Rightarrow> PRIORITY_WEIGHT (priority a) - PRIORITY_WEIGHT (priority b))"

text \<open>
  Array.prototype.sort with a comparator is the platform's stable sort. The model is the
  stable insertion sort in which an element moves in front of one that precedes it in
  the input exactly when the comparator, called on (later element, earlier element), is
  negative, the question a stable merge or insertion step asks of its comparator.
\<close>

fun insert_sorted :: "('a \<Rightarrow> 'a \<Rightarrow> int) \<Rightarrow> 'a \<Rightarrow> 'a list \<Rightarrow> 'a list" where
  "insert_sorted cmp x [] = [x]"
| "insert_sorted cmp x (y # ys) =
     (if cmp y x < 0 then y # insert_sorted cmp x ys else x # y # ys)"

fun array_sort :: "('a \<Rightarrow> 'a \<Rightarrow> int) \<Rightarrow> 'a list \<Rightarrow> 'a list" where
  "array_sort cmp [] = []"
| "array_sort cmp (x # xs) = insert_sorted cmp x (array_sort cmp xs)"

definition sortTasks :: "task list \<Rightarrow> sort_option \<Rightarrow> task list" where
  "sortTasks ts opt = array_sort (compareTasks opt) ts"

text \<open>Two tasks tie under a sort option when the field the option sorts on is equal.\<close>

definition sameKey :: "sort_option \<Rightarrow> task \<Rightarrow> task \<Rightarrow> bool" where
  "sameKey opt a b =
     (case opt of
        CreatedDesc \<Rightarrow> created a = created b
      | CreatedAsc \<Rightarrow> created a = created b
      | UpdatedDesc \<Rightarrow> updated a = updated b
      | UpdatedAsc \<Rightarrow> updated a = updated b
      | DueAsc \<Rightarrow> due a = due b
      | DueDesc \<Rightarrow> due a = due b
      | PriorityDesc \<Rightarrow> PRIORITY_WEIGHT (priority a) = PRIORITY_WEIGHT (priority b)
      | PriorityAsc \<Rightarrow> PRIORITY_WEIGHT (priority a) = PRIORITY_WEIGHT (priority b))"

text \<open>
  A comparator is consistent when its negative results form a strict weak order: never
  negative in both directions, and "not below" is transitive.
\<close>

definition consistent :: "('a \<Rightarrow> 'a \<Rightarrow> int) \<Rightarrow> bool" where
  "consistent cmp \<longleftrightarrow>
     (\<forall>a b. cmp a b < 0 \<longrightarrow> \<not> cmp b a < 0) \<and>
     (\<forall>a b c. \<not> cmp b a < 0 \<longrightarrow> \<not> cmp c b < 0 \<longrightarrow> \<not> cmp c a < 0)"

section \<open>TaskStore (useTasks.ts, useTasks)\<close>

text \<open>
  The state of the hook. A backend call (invoke) either resolves with a value or rejects
  with a message: \<open>Inr v\<close> and \<open>Inl e\<close>. Each asynchronous operation is modelled as the
  sequence of its own state updates, with the backend's replies as arguments; the clock
  reading that saveTask formats into the updated stamp is the argument \<open>now\<close>.
\<close>

record tasks_state =
  tasks :: "task list"
  loading :: bool
  error :: "string option"
  sortOption :: sort_option

definition useTasks_initial :: tasks_state where
  "useTasks_initial = \<lparr>tasks = [], loading = False, error = None, sortOption = CreatedDesc\<rparr>"

text \<open>loadTasks, closed over the sort option of the render that created it.\<close>

definition loadTasks :: "sort_option \<Rightarrow> string + task list \<Rightarrow> tasks_state \<Rightarrow> tasks_state" where
  "loadTasks opt reply st =
     (let st1 = st\<lparr>loading := True, error := None\<rparr>;
          st2 = (case reply of
                   Inr loadedTasks \<Rightarrow> st1\<lparr>tasks := sortTasks loadedTasks opt\<rparr>
                 | Inl e \<Rightarrow> st1\<lparr>error := Some e\<rparr>)
      in st2\<lparr>loading := False\<rparr>)"

text \<open>The synchronous part of saveTask: stamp the task, replace it locally, re-sort.\<close>

definition saveTask_optimistic :: "string \<Rightarrow> task \<Rightarrow> tasks_state \<Rightarrow> tasks_state" where
  "saveTask_optimistic now t st =
     (let updatedTask = t\<lparr>updated := now\<rparr>
      in st\<lparr>tasks :=
           sortTasks
             (map (\<lambda>t'. if filePath t' = filePath updatedTask then updatedTask else t') (tasks st))
             (sortOption st)\<rparr>)"

text \<open>
  saveTask as a whole: the optimistic step, then the reply of save_task; a rejection sets
  the error and reloads, with the reply of get_tasks.
\<close>

definition saveTask ::
  "string \<Rightarrow> task \<Rightarrow> string + unit \<Rightarrow> string + task list \<Rightarrow> tasks_state \<Rightarrow> tasks_state" where
  "saveTask now t saveReply loadReply st =
     (let st1 = saveTask_optimistic now t st
      in case saveReply of
           Inr _ \<Rightarrow> st1
         | Inl e \<Rightarrow> loadTasks (sortOption st) loadReply (st1\<lparr>error := Some e\<rparr>))"

definition changeSortOption :: "sort_option \<Rightarrow> tasks_state \<Rightarrow> tasks_state" where
  "changeSortOption option st = st\<lparr>sortOption := option, tasks := sortTasks (tasks st) option\<rparr>"

section \<open>DragDropCoordinator (KanbanBoard.tsx)\<close>

definition STATUSES :: "status list" where
  "STATUSES = [NotStarted, InProgress, Done]"

text \<open>The string of each status (the identifier of its column), as UTF-8 bytes.\<close>

definition statusName :: "status \<Rightarrow> string" where
  "statusName s =
     (case s of
        NotStarted \<Rightarrow> [CHR 0xE6, CHR 0x9C, CHR 0xAA, CHR 0xE7, CHR 0x9D, CHR 0x80, CHR 0xE6, CHR 0x89, CHR 0x8B]
      | InProgress \<Rightarrow> [CHR 0xE7, CHR 0x9D, CHR 0x80, CHR 0xE6, CHR 0x89, CHR 0x8B, CHR 0xE4, CHR 0xB8, CHR 0xAD]
      | Done \<Rightarrow> [CHR 0xE5, CHR 0xAE, CHR 0x8C, CHR 0xE4, CHR 0xBA, CHR 0x86])"

text \<open>
  The state of the board: the hook's state, the preview overlay localTasks, and the two
  drag variables. Idle is draggingTask = None and originalStatus = None.
\<close>

record board_state =
  hook :: tasks_state
  localTasks :: "task list"
  draggingTask :: "task option"
  originalStatus :: "status option"

text \<open>The effect on [tasks]: whenever the hook's collection changes, the overlay copies it.\<close>

definition syncLocalTasks :: "board_state \<Rightarrow> board_state" where
  "syncLocalTasks st = st\<lparr>localTasks := tasks (hook st)\<rparr>"

definition handleDragStart :: "string \<Rightarrow> board_state \<Rightarrow> board_state" where
  "handleDragStart taskId st =
     (case find (\<lambda>t. filePath t = taskId) (localTasks st) of
        Some t \<Rightarrow> st\<lparr>draggingTask := Some t, originalStatus := Some (status t)\<rparr>
      | None \<Rightarrow> st)"

definition getStatusFromOverId :: "task list \<Rightarrow> string \<Rightarrow> status option" where
  "getStatusFromOverId lts overId =
     (case find (\<lambda>s. statusName s = overId) STATUSES of
        Some s \<Rightarrow> Some s
      | None \<Rightarrow>
          (case find (\<lambda>t. filePath t = overId) lts of
             Some overTask \<Rightarrow> Some (status overTask)
           | None \<Rightarrow> None))"

text \<open>
  handleDragEnd up to its call of saveTask: the new board state and the arguments of the
  saveTask calls it issues, in order.
\<close>

definition handleDragEnd :: "string \<Rightarrow> string option \<Rightarrow> board_state \<Rightarrow> board_state \<times> task list" where
  "handleDragEnd active over st =
     (let currentOriginalStatus = originalStatus st;
          st1 = st\<lparr>draggingTask := None, originalStatus := None\<rparr>
      in case over of
           None \<Rightarrow>
             (case currentOriginalStatus of
                Some s \<Rightarrow>
                  (st1\<lparr>localTasks :=
                         map (\<lambda>t. if filePath t = active then t\<lparr>status := s\<rparr> else t) (localTasks st1)\<rparr>,
                   [])
              | None \<Rightarrow> (st1, []))
         | Some overId \<Rightarrow>
             (case find (\<lambda>t. filePath t = active) (localTasks st) of
                None \<Rightarrow> (st1, [])
              | Some t \<Rightarrow>
                  (case getStatusFromOverId (localTasks st) overId of
                     None \<Rightarrow> (st1, [])
                   | Some newStatus \<Rightarrow>
                       if currentOriginalStatus \<noteq> Some newStatus
                       then (st1, [t\<lparr>status := newStatus\<rparr>])
                       else (st1, []))))"

definition handleDragOver :: "string \<Rightarrow> string option \<Rightarrow> board_state \<Rightarrow> board_state" where
  "handleDragOver taskId over st =
     (case over of
        None \<Rightarrow> st
      | Some overId \<Rightarrow>
          (case getStatusFromOverId (localTasks st) overId of
             None \<Rightarrow> st
           | Some newStatus \<Rightarrow>
               (case find (\<lambda>t. filePath t = taskId) (localTasks st) of
                  Some currentTask \<Rightarrow>
                    if status currentTask = newStatus then st
                    else st\<lparr>localTasks :=
                           map (\<lambda>t. if filePath t = taskId then t\<lparr>status := newStatus\<rparr> else t)
                             (localTasks st)\<rparr>
                | None \<Rightarrow>
                    st\<lparr>localTasks :=
                         map (\<lambda>t. if filePath t = taskId then t\<lparr>status := newStatus\<rparr> else t)
                           (localTasks st)\<rparr>)))"

text \<open>
  A saveTask call made from the board: the hook runs it, and the effect on [tasks] copies
  the new collection into the overlay.
\<close>

definition board_saveTask ::
  "string \<Rightarrow> string + unit \<Rightarrow> string + task list \<Rightarrow> board_state \<Rightarrow> task \<Rightarrow> board_state" where
  "board_saveTask now saveReply loadReply st t =
     syncLocalTasks (st\<lparr>hook := saveTask now t saveReply loadReply (hook st)\<rparr>)"

text \<open>A load that completes while the board is shown, followed by the same effect.\<close>

definition board_loadTasks :: "string + task list \<Rightarrow> board_state \<Rightarrow> board_state" where
  "board_loadTasks reply st =
     (case reply of
        Inr _ \<Rightarrow> syncLocalTasks (st\<lparr>hook := loadTasks (sortOption (hook st)) reply (hook st)\<rparr>)
      | Inl _ \<Rightarrow> st\<lparr>hook := loadTasks (sortOption (hook st)) reply (hook st)\<rparr>)"

text \<open>The whole drag end: the handler, then every save it issued.\<close>

definition dragEnd ::
  "string \<Rightarrow> string option \<Rightarrow> string \<Rightarrow> string + unit \<Rightarrow> string + task list \<Rightarrow> board_state \<Rightarrow>
   board_state" where
  "dragEnd active over now saveReply loadReply st =
     (case handleDragEnd active over st of
        (st1, calls) \<Rightarrow> foldl (board_saveTask now saveReply loadReply) st1 calls)"

section \<open>GitSyncCoordinator (useGitSync.ts and the board's sync handlers)\<close>

record git_state =
  isGitRepo :: bool
  branches :: "string list"
  currentBranch :: string
  isSyncing :: bool
  lastSyncResult :: "sync_result option"
  isChecking :: bool

definition useGitSync_initial :: git_state where
  "useGitSync_initial =
     \<lparr>isGitRepo = False, branches = [], currentBranch = [], isSyncing = False,
      lastSyncResult = None, isChecking = True\<rparr>"

definition checkGitRepo :: "string + bool \<Rightarrow> git_state \<Rightarrow> bool \<times> git_state" where
  "checkGitRepo reply g =
     (case reply of
        Inr result \<Rightarrow> (result, g\<lparr>isGitRepo := result\<rparr>)
      | Inl _ \<Rightarrow> (False, g\<lparr>isGitRepo := False\<rparr>))"

definition fetchBranches :: "string + string list \<Rightarrow> git_state \<Rightarrow> git_state" where
  "fetchBranches reply g =
     (case reply of Inr result \<Rightarrow> g\<lparr>branches := result\<rparr> | Inl _ \<Rightarrow> g\<lparr>branches := []\<rparr>)"

definition fetchCurrentBranch :: "string + string \<Rightarrow> git_state \<Rightarrow> git_state" where
  "fetchCurrentBranch reply g =
     (case reply of Inr result \<Rightarrow> g\<lparr>currentBranch := result\<rparr> | Inl _ \<Rightarrow> g\<lparr>currentBranch := []\<rparr>)"

text \<open>The prefix of the message synthesized for a failed sync, as UTF-8 bytes.\<close>

definition syncErrorPrefix :: string where
  "syncErrorPrefix =
     [CHR 0xE5, CHR 0x90, CHR 0x8C, CHR 0xE6, CHR 0x9C, CHR 0x9F, CHR 0xE3, CHR 0x82, CHR 0xA8,
      CHR 0xE3, CHR 0x83, CHR 0xA9, CHR 0xE3, CHR 0x83, CHR 0xBC, CHR 0x3A, CHR 0x20]"

text \<open>
  sync: what the caller receives (\<open>Inl\<close> would be an exception reaching the caller,
  \<open>Inr\<close> a returned result) and the hook's state once the finally block has run.
\<close>

definition sync :: "string + sync_result \<Rightarrow> git_state \<Rightarrow> (string + sync_result) \<times> git_state" where
  "sync reply g =
     (let g1 = g\<lparr>isSyncing := True, lastSyncResult := None\<rparr>
      in case reply of
           Inr result \<Rightarrow> (Inr result, g1\<lparr>lastSyncResult := Some result, isSyncing := False\<rparr>)
         | Inl err \<Rightarrow>
             (let errorResult =
                    \<lparr>pulled = False, pushed = False, conflicts = False,
                     message = syncErrorPrefix @ err\<rparr>
              in (Inr errorResult, g1\<lparr>lastSyncResult := Some errorResult, isSyncing := False\<rparr>)))"

text \<open>
  The replies of one run of the detection effect, and the states the hook passes through
  during that run: checking, repository known, branches known, checking over.
\<close>

record detection =
  repoReply :: "string + bool"
  branchesReply :: "string + string list"
  currentReply :: "string + string"

definition init_renders :: "detection \<Rightarrow> git_state \<Rightarrow> git_state list" where
  "init_renders d g =
     (let g1 = g\<lparr>isChecking := True\<rparr>;
          (isRepo, g2) = checkGitRepo (repoReply d) g1;
          g3 = (if isRepo then fetchCurrentBranch (currentReply d) (fetchBranches (branchesReply d) g2)
                else g2)
      in [g1, g2, g3, g3\<lparr>isChecking := False\<rparr>])"

text \<open>
  The auto-sync effect of the board, run on a rendered hook state with the current value
  of the initialSyncDone ref: the new value of the ref and the number of handleSync calls.
\<close>

definition autoSyncEffect :: "bool \<Rightarrow> git_state \<Rightarrow> bool \<times> nat" where
  "autoSyncEffect initialSyncDone g =
     (if \<not> isChecking g \<and> isGitRepo g \<and> \<not> initialSyncDone then (True, 1)
      else (initialSyncDone, 0))"

text \<open>The effect over the successive renders of one mounted board.\<close>

fun autoSyncRun :: "bool \<Rightarrow> git_state list \<Rightarrow> bool \<times> nat" where
  "autoSyncRun initialSyncDone [] = (initialSyncDone, 0)"
| "autoSyncRun initialSyncDone (g # gs) =
     (case autoSyncEffect initialSyncDone g of
        (done1, n) \<Rightarrow> (case autoSyncRun done1 gs of (done2, m) \<Rightarrow> (done2, n + m)))"

text \<open>
  Repeated runs of the detection effect within one activation, each from the state the
  previous one left.
\<close>

fun activation_renders :: "detection list \<Rightarrow> git_state \<Rightarrow> git_state list" where
  "activation_renders [] g = []"
| "activation_renders (d # ds) g =
     init_renders d g @ activation_renders ds (last (init_renders d g))"











section \<open>Example data\<close>

definition example_task :: "string \<Rightarrow> string \<Rightarrow> status \<Rightarrow> task" where
  "example_task p d s =
     \<lparr>filePath = p, title = [], created = ''2024-01-01-10:00'', updated = ''2024-01-01-10:00'',
      status = s, priority = Low, due = d, assignee = ''-'', subTasks = [], memo = []\<rparr>"


definition example_store :: tasks_state where
  "example_store =
     useTasks_initial
       \<lparr>tasks := [example_task ''a.md'' ''-'' NotStarted, example_task ''b.md'' ''-'' Done]\<rparr>"

text \<open>A board in the middle of a drag of a.md, previewed under InProgress.\<close>

definition example_drag_board :: board_state where
  "example_drag_board =
     \<lparr>hook = example_store,
      localTasks = [example_task ''a.md'' ''-'' InProgress, example_task ''b.md'' ''-'' Done],
      draggingTask = Some (example_task ''a.md'' ''-'' NotStarted),
      originalStatus = Some NotStarted\<rparr>"

definition example_idle_board :: board_state where
  "example_idle_board =
     \<lparr>hook = useTasks_initial\<lparr>tasks := [example_task ''a.md'' ''-'' NotStarted]\<rparr>,
      localTasks = [example_task ''a.md'' ''-'' NotStarted],
      draggingTask = None, originalStatus = None\<rparr>"

text \<open>
  A drag of a.md during which a reload brings a.md back as Done: drag start, the reload,
  a drag-over of the NotStarted column, and the drop on that column.
\<close>

definition example_drag_trace :: board_state where
  "example_drag_trace =
     dragEnd ''a.md'' (Some (statusName NotStarted)) ''2024-05-05-12:00'' (Inr ()) (Inr [])
       (handleDragOver ''a.md'' (Some (statusName NotStarted))
          (board_loadTasks (Inr [example_task ''a.md'' ''-'' Done])
             (handleDragStart ''a.md'' example_idle_board)))"

definition example_detection :: detection where
  "example_detection =
     \<lparr>repoReply = Inr True, branchesReply = Inr [''main'', ''dev''], currentReply = Inr ''main''\<rparr>"






section \<open>Properties of the sort\<close>

lemma mset_insert_sorted: "mset (insert_sorted cmp x ys) = add_mset x (mset ys)"
  by (induction ys) simp_all

lemma mset_array_sort: "mset (array_sort cmp xs) = mset xs"
  by (induction xs) (simp_all add: mset_insert_sorted)

lemma set_insert_sorted: "set (insert_sorted cmp x ys) = insert x (set ys)"
  by (induction ys) auto

lemma set_array_sort: "set (array_sort cmp xs) = set xs"
  by (induction xs) (simp_all add: set_insert_sorted)

lemma filter_insert_sorted:
  assumes "\<And>y. y \<in> set ys \<Longrightarrow> P x \<Longrightarrow> P y \<Longrightarrow> \<not> cmp y x < 0"
  shows "filter P (insert_sorted cmp x ys) = filter P (x # ys)"
  using assms by (induction ys) auto

lemma filter_array_sort:
  assumes "\<And>x y. P x \<Longrightarrow> P y \<Longrightarrow> \<not> cmp y x < 0"
  shows "filter P (array_sort cmp xs) = filter P xs"
proof (induction xs)
  case Nil
  show ?case by simp
next
  case (Cons x xs)
  have "filter P (insert_sorted cmp x (array_sort cmp xs)) = filter P (x # array_sort cmp xs)"
    by (rule filter_insert_sorted) (rule assms)
  with Cons show ?case by simp
qed

lemma localeCompare_neg: "localeCompare a b < 0 \<longleftrightarrow> collationKey a < collationKey b"
  by (simp add: localeCompare_def)

lemma compareTasks_neg:
  "compareTasks opt a b < 0 \<longleftrightarrow>
     (case opt of
        CreatedDesc \<Rightarrow> collationKey (created b) < collationKey (created a)
      | CreatedAsc \<Rightarrow> collationKey (created a) < collationKey (created b)
      | UpdatedDesc \<Rightarrow> collationKey (updated b) < collationKey (updated a)
      | UpdatedAsc \<Rightarrow> collationKey (updated a) < collationKey (updated b)
      | DueAsc \<Rightarrow>
          due a \<noteq> ''-'' \<and> (due b = ''-'' \<or> collationKey (due a) < collationKey (due b))
      | DueDesc \<Rightarrow>
          due a \<noteq> ''-'' \<and> (due b = ''-'' \<or> collationKey (due b) < collationKey (due a))
      | PriorityDesc \<Rightarrow> PRIORITY_WEIGHT (priority b) < PRIORITY_WEIGHT (priority a)
      | PriorityAsc \<Rightarrow> PRIORITY_WEIGHT (priority a) < PRIORITY_WEIGHT (priority b))"
  by (cases opt) (simp_all add: compareTasks_def localeCompare_neg)

lemma consistent_compareTasks: "consistent (compareTasks opt)"
  unfolding consistent_def compareTasks_neg
  by (cases opt) auto

lemma sorted_insert_sorted:
  assumes "consistent cmp" and "sorted_wrt (\<lambda>a b. \<not> cmp b a < 0) ys"
  shows "sorted_wrt (\<lambda>a b. \<not> cmp b a < 0) (insert_sorted cmp x ys)"
  using assms
proof (induction ys)
  case Nil
  then show ?case by simp
next
  case (Cons y ys)
  from Cons.prems have asym: "\<And>a b. cmp a b < 0 \<Longrightarrow> \<not> cmp b a < 0"
    and ntr: "\<And>a b c. \<not> cmp b a < 0 \<Longrightarrow> \<not> cmp c b < 0 \<Longrightarrow> \<not> cmp c a < 0"
    unfolding consistent_def by blast+
  show ?case
  proof (cases "cmp y x < 0")
    case True
    with Cons asym show ?thesis by (auto simp: set_insert_sorted)
  next
    case False
    with Cons.prems ntr show ?thesis by auto
  qed
qed

lemma sorted_array_sort:
  "consistent cmp \<Longrightarrow> sorted_wrt (\<lambda>a b. \<not> cmp b a < 0) (array_sort cmp xs)"
  by (induction xs) (simp_all add: sorted_insert_sorted)

lemma array_sort_sorted:
  "sorted_wrt (\<lambda>a b. \<not> cmp b a < 0) xs \<Longrightarrow> array_sort cmp xs = xs"
proof (induction xs)
  case Nil
  show ?case by simp
next
  case (Cons x xs)
  then have "array_sort cmp xs = xs" by simp
  with Cons.prems show ?case by (cases xs) simp_all
qed



lemma mset_sortTasks: "mset (sortTasks ts opt) = mset ts"
  by (simp add: sortTasks_def mset_array_sort)

lemma localeCompare_same: "localeCompare a a = 0"
  by (simp add: localeCompare_def)


lemmas example_eval = sortTasks_def compareTasks_def localeCompare_same example_task_def

text \<open>The two priority examples of the specification, low, high, medium in that order.\<close>

lemma sortTasks_priority_examples:
  "map priority
     (sortTasks
        [example_task ''l.md'' ''-'' NotStarted,
         (example_task ''h.md'' ''-'' NotStarted)\<lparr>priority := High\<rparr>,
         (example_task ''m.md'' ''-'' NotStarted)\<lparr>priority := Medium\<rparr>] PriorityDesc)
     = [High, Medium, Low]"
  "map priority
     (sortTasks
        [example_task ''l.md'' ''-'' NotStarted,
         (example_task ''h.md'' ''-'' NotStarted)\<lparr>priority := High\<rparr>,
         (example_task ''m.md'' ''-'' NotStarted)\<lparr>priority := Medium\<rparr>] PriorityAsc)
     = [Low, Medium, High]"
  by (simp_all add: example_eval PRIORITY_WEIGHT_def)

subsection \<open>C2: permutation and stability\<close>

text \<open>
  C2. For every task list and each of the eight sort options, sortTasks returns a
  permutation of its input (the same multiset of tasks), and it is stable: for any task
  \<open>a\<close>, the tasks that tie with \<open>a\<close> under the option's key occur in the output in the
  order they have in the input.
\<close>

theorem sortTasks_permutation_stable:
  "mset (sortTasks ts opt) = mset ts \<and>
   filter (sameKey opt a) (sortTasks ts opt) = filter (sameKey opt a) ts"
proof
  show "mset (sortTasks ts opt) = mset ts"
    by (simp add: sortTasks_def mset_array_sort)
  have tie: "\<And>x y. sameKey opt a x \<Longrightarrow> sameKey opt a y \<Longrightarrow> \<not> compareTasks opt y x < 0"
    unfolding compareTasks_neg by (cases opt) (auto simp: sameKey_def)
  show "filter (sameKey opt a) (sortTasks ts opt) = filter (sameKey opt a) ts"
    unfolding sortTasks_def by (rule filter_array_sort) (rule tie)
qed

subsection \<open>C5: idempotence\<close>

text \<open>
  C5. Sorting an already sorted list again with the same option changes nothing:
  sortTasks (sortTasks ts opt) opt is the same list as sortTasks ts opt.
\<close>

theorem sortTasks_idempotent: "sortTasks (sortTasks ts opt) opt = sortTasks ts opt"
  unfolding sortTasks_def
  by (rule array_sort_sorted) (rule sorted_array_sort, rule consistent_compareTasks)

subsection \<open>C4: the order under the due options\<close>


lemma of_char_le: "(c :: char) \<le> d \<longleftrightarrow> (of_char c :: nat) \<le> of_char d"
  by (simp add: less_eq_char_def)

lemma isDigit_of_char: "isDigit c \<longleftrightarrow> 48 \<le> (of_char c :: nat) \<and> (of_char c :: nat) \<le> 57"
  by (simp add: isDigit_def of_char_le)



lemma caseWeight_dateChar: "dateChar c \<Longrightarrow> caseWeight c = 0"
  by (auto simp: dateChar_def caseWeight_def isUpper_def isDigit_of_char of_char_le)




lemma map_caseWeight_date: "list_all dateChar a \<Longrightarrow> map caseWeight a = replicate (length a) 0"
  by (induction a) (simp_all add: caseWeight_dateChar)









section \<open>Properties of the task store\<close>

lemma map_replace_filePath:
  "filePath u = filePath t \<Longrightarrow>
   map filePath (map (\<lambda>t'. if filePath t' = filePath t then u else t') ts) = map filePath ts"
  by (induction ts) auto

lemma map_replace_absent:
  "filePath t \<notin> filePath ` set ts \<Longrightarrow>
   map (\<lambda>t'. if filePath t' = filePath t then u else t') ts = ts"
  by (induction ts) auto

lemma mset_map_sortTasks: "mset (map f (sortTasks ts opt)) = mset (map f ts)"
  using mset_sortTasks [of ts opt] by (metis mset_map)

lemmas store_eval =
  useTasks_initial_def saveTask_def saveTask_optimistic_def loadTasks_def Let_def example_eval

subsection \<open>C1: a failed save is reconciled by the reload\<close>

text \<open>
  C1. When save_task rejects, saveTask reloads; if that reload succeeds, the collection
  held afterwards is the backend's collection sorted under the store's sort option,
  whatever the task and the collection held before: nothing of the optimistic edit is
  left, and the sort option is the one the store had.
\<close>

theorem saveTask_failure_then_load:
  "tasks (saveTask now t (Inl e) (Inr backend) st) = sortTasks backend (sortOption st) \<and>
   sortOption (saveTask now t (Inl e) (Inr backend) st) = sortOption st \<and>
   mset (tasks (saveTask now t (Inl e) (Inr backend) st)) = mset backend"
  by (simp add: saveTask_def saveTask_optimistic_def loadTasks_def Let_def mset_sortTasks)

subsection \<open>C10: the optimistic step keeps the membership\<close>

text \<open>
  C10. The synchronous step of saveTask leaves the multiset of filePath keys of the
  collection unchanged. The new collection consists of the old entries with every entry
  whose filePath is the argument's replaced by the stamped argument; when no entry has
  that filePath the collection has the same tasks as before, none added, none removed.
\<close>

theorem saveTask_optimistic_membership:
  "mset (map filePath (tasks (saveTask_optimistic now t st))) = mset (map filePath (tasks st)) \<and>
   mset (tasks (saveTask_optimistic now t st)) =
     mset (map (\<lambda>t'. if filePath t' = filePath t then t\<lparr>updated := now\<rparr> else t') (tasks st)) \<and>
   (filePath t \<notin> filePath ` set (tasks st) \<longrightarrow>
      mset (tasks (saveTask_optimistic now t st)) = mset (tasks st))"
proof (intro conjI impI)
  let ?r = "map (\<lambda>t'. if filePath t' = filePath t then t\<lparr>updated := now\<rparr> else t') (tasks st)"
  have same: "map filePath ?r = map filePath (tasks st)"
    by (rule map_replace_filePath) simp
  have "mset (map filePath (sortTasks ?r (sortOption st))) = mset (map filePath ?r)"
    by (rule mset_map_sortTasks)
  also have "\<dots> = mset (map filePath (tasks st))"
    by (simp only: same)
  finally show "mset (map filePath (tasks (saveTask_optimistic now t st))) = mset (map filePath (tasks st))"
    by (simp add: saveTask_optimistic_def Let_def)
  show "mset (tasks (saveTask_optimistic now t st)) = mset ?r"
    by (simp add: saveTask_optimistic_def Let_def mset_sortTasks)
  assume "filePath t \<notin> filePath ` set (tasks st)"
  then show "mset (tasks (saveTask_optimistic now t st)) = mset (tasks st)"
    by (simp add: saveTask_optimistic_def Let_def mset_sortTasks map_replace_absent)
qed

theorem saveTask_optimistic_membership_witness:
  "filePath (example_task ''z.md'' ''-'' Done) \<notin> filePath ` set (tasks example_store) \<and>
   mset (tasks (saveTask_optimistic ''2024-05-05-12:00'' (example_task ''z.md'' ''-'' Done) example_store))
     = mset (tasks example_store)"
proof -
  have h: "filePath (example_task ''z.md'' ''-'' Done) \<notin> filePath ` set (tasks example_store)"
    by (simp add: example_store_def store_eval)
  from saveTask_optimistic_membership
    [of "''2024-05-05-12:00''" "example_task ''z.md'' ''-'' Done" example_store] h
  show ?thesis by blast
qed

section \<open>Properties of the drag and drop handlers\<close>

lemma find_map_same_key:
  assumes "\<And>x. P (f x) = P x"
  shows "find P (map f xs) = map_option f (find P xs)"
  by (induction xs) (simp_all add: assms)

lemma handleDragEnd_idle:
  "draggingTask (fst (handleDragEnd active over st)) = None \<and>
   originalStatus (fst (handleDragEnd active over st)) = None \<and>
   hook (fst (handleDragEnd active over st)) = hook st"
  by (simp add: handleDragEnd_def Let_def split: option.splits)

lemma handleDragEnd_calls_short: "length (snd (handleDragEnd active over st)) \<le> 1"
  by (simp add: handleDragEnd_def Let_def split: option.splits)

lemma board_saveTask_fields:
  "draggingTask (board_saveTask now sr lr st t) = draggingTask st \<and>
   originalStatus (board_saveTask now sr lr st t) = originalStatus st \<and>
   localTasks (board_saveTask now sr lr st t) = tasks (hook (board_saveTask now sr lr st t))"
  by (simp add: board_saveTask_def syncLocalTasks_def)

lemmas board_eval =
  example_drag_board_def example_store_def handleDragEnd_def getStatusFromOverId_def
  STATUSES_def statusName_def store_eval

subsection \<open>C3: the save calls of a drag end\<close>

text \<open>
  C3. At the end of a drag of a task that is in the overlay and whose originalStatus
  was recorded: a target that resolves to a status other than originalStatus gives exactly
  one saveTask call, for the task with its status set to the resolved one; a target that
  resolves to originalStatus gives no call; no target at all gives no call, and every
  overlay entry of the dragged task gets originalStatus back.
\<close>

theorem handleDragEnd_save_calls:
  assumes "find (\<lambda>t'. filePath t' = active) (localTasks st) = Some t"
    and "originalStatus st = Some a"
  shows "(getStatusFromOverId (localTasks st) overId = Some b \<and> b \<noteq> a \<longrightarrow>
            snd (handleDragEnd active (Some overId) st) = [t\<lparr>status := b\<rparr>]) \<and>
         (getStatusFromOverId (localTasks st) overId = Some a \<longrightarrow>
            snd (handleDragEnd active (Some overId) st) = []) \<and>
         snd (handleDragEnd active None st) = [] \<and>
         localTasks (fst (handleDragEnd active None st)) =
           map (\<lambda>t'. if filePath t' = active then t'\<lparr>status := a\<rparr> else t') (localTasks st) \<and>
         find (\<lambda>t'. filePath t' = active) (localTasks (fst (handleDragEnd active None st))) =
           Some (t\<lparr>status := a\<rparr>)"
proof -
  have f: "find (\<lambda>t'. filePath t' = active)
             (map (\<lambda>t'. if filePath t' = active then t'\<lparr>status := a\<rparr> else t') (localTasks st)) =
           map_option (\<lambda>t'. if filePath t' = active then t'\<lparr>status := a\<rparr> else t')
             (find (\<lambda>t'. filePath t' = active) (localTasks st))"
    by (rule find_map_same_key) simp
  from assms(1) have "filePath t = active"
    by (auto simp: find_Some_iff)
  with f assms show ?thesis
    by (simp add: handleDragEnd_def Let_def)
qed

theorem handleDragEnd_save_calls_witness:
  "find (\<lambda>t'. filePath t' = ''a.md'') (localTasks example_drag_board)
     = Some (example_task ''a.md'' ''-'' InProgress) \<and>
   originalStatus example_drag_board = Some NotStarted \<and>
   getStatusFromOverId (localTasks example_drag_board) ''b.md'' = Some Done \<and> Done \<noteq> NotStarted \<and>
   snd (handleDragEnd ''a.md'' (Some ''b.md'') example_drag_board)
     = [example_task ''a.md'' ''-'' Done] \<and>
   getStatusFromOverId (localTasks example_drag_board) (statusName NotStarted) = Some NotStarted \<and>
   snd (handleDragEnd ''a.md'' (Some (statusName NotStarted)) example_drag_board) = [] \<and>
   snd (handleDragEnd ''a.md'' None example_drag_board) = [] \<and>
   find (\<lambda>t'. filePath t' = ''a.md'') (localTasks (fst (handleDragEnd ''a.md'' None example_drag_board)))
     = Some (example_task ''a.md'' ''-'' NotStarted)"
proof -
  have h1: "find (\<lambda>t'. filePath t' = ''a.md'') (localTasks example_drag_board)
              = Some (example_task ''a.md'' ''-'' InProgress)"
    by (simp add: board_eval)
  have h2: "originalStatus example_drag_board = Some NotStarted"
    by (simp add: board_eval)
  have r1: "getStatusFromOverId (localTasks example_drag_board) ''b.md'' = Some Done"
    by (simp add: board_eval)
  have r2: "getStatusFromOverId (localTasks example_drag_board) (statusName NotStarted) = Some NotStarted"
    by (simp add: board_eval)
  have u1: "(example_task ''a.md'' ''-'' InProgress)\<lparr>status := Done\<rparr> = example_task ''a.md'' ''-'' Done"
    and u2: "(example_task ''a.md'' ''-'' InProgress)\<lparr>status := NotStarted\<rparr>
               = example_task ''a.md'' ''-'' NotStarted"
    by (simp_all add: example_task_def)
  note w1 = handleDragEnd_save_calls [OF h1 h2, of "''b.md''" Done]
  note w2 = handleDragEnd_save_calls [OF h1 h2, of "statusName NotStarted" Done]
  from w1 r1 u1 have c1: "snd (handleDragEnd ''a.md'' (Some ''b.md'') example_drag_board)
     = [example_task ''a.md'' ''-'' Done]" by simp
  from w2 r2 have c2: "snd (handleDragEnd ''a.md'' (Some (statusName NotStarted)) example_drag_board) = []"
    by simp
  from w1 have c3: "snd (handleDragEnd ''a.md'' None example_drag_board) = []"
    by blast
  from w1 have "find (\<lambda>t'. filePath t' = ''a.md'')
        (localTasks (fst (handleDragEnd ''a.md'' None example_drag_board)))
     = Some ((example_task ''a.md'' ''-'' InProgress)\<lparr>status := NotStarted\<rparr>)"
    by blast
  then have c4: "find (\<lambda>t'. filePath t' = ''a.md'')
        (localTasks (fst (handleDragEnd ''a.md'' None example_drag_board)))
     = Some (example_task ''a.md'' ''-'' NotStarted)"
    by (simp only: u2)
  from h1 h2 r1 r2 c1 c2 c3 c4 show ?thesis by simp
qed

subsection \<open>C9: what a drag end does to the coordinator and the overlay\<close>

text \<open>
  The claim as stated fails. In the example trace a reload arrives during the drag and
  brings the dragged task back as Done; the drop on the column of its originalStatus
  issues no save and leaves the overlay showing NotStarted while the canonical collection
  says Done. The coordinator is Idle, but the overlay does not mirror the collection.
\<close>

theorem dragEnd_overlay_counterexample:
  "draggingTask example_drag_trace = None \<and> originalStatus example_drag_trace = None \<and>
   map status (localTasks example_drag_trace) = [NotStarted] \<and>
   map status (tasks (hook example_drag_trace)) = [Done] \<and>
   localTasks example_drag_trace \<noteq> tasks (hook example_drag_trace)"
  by (simp add: example_drag_trace_def example_idle_board_def dragEnd_def handleDragEnd_def
      handleDragOver_def handleDragStart_def board_loadTasks_def board_saveTask_def
      syncLocalTasks_def getStatusFromOverId_def STATUSES_def statusName_def store_eval)

text \<open>
  C9, amended. Every drag end, whatever the target and whatever the replies to the save
  and to the reload, leaves the coordinator Idle. When the drop issues a save, the
  overlay afterwards is the canonical collection. When it issues none, the canonical
  collection is untouched, and the overlay is left as it was, except on a drop with no
  target, where the entries of the dragged task get originalStatus back.
\<close>

theorem dragEnd_idle:
  "draggingTask (dragEnd active over now saveReply loadReply st) = None \<and>
   originalStatus (dragEnd active over now saveReply loadReply st) = None \<and>
   (snd (handleDragEnd active over st) \<noteq> [] \<longrightarrow>
      localTasks (dragEnd active over now saveReply loadReply st) =
        tasks (hook (dragEnd active over now saveReply loadReply st))) \<and>
   (snd (handleDragEnd active over st) = [] \<longrightarrow>
      hook (dragEnd active over now saveReply loadReply st) = hook st \<and>
      localTasks (dragEnd active over now saveReply loadReply st) =
        (case (over, originalStatus st) of
           (None, Some s) \<Rightarrow>
             map (\<lambda>t. if filePath t = active then t\<lparr>status := s\<rparr> else t) (localTasks st)
         | _ \<Rightarrow> localTasks st))"
proof -
  obtain st1 calls where h: "handleDragEnd active over st = (st1, calls)"
    by (cases "handleDragEnd active over st")
  have idle: "draggingTask st1 = None" "originalStatus st1 = None" "hook st1 = hook st"
    using handleDragEnd_idle [of active over st] h by simp_all
  have short: "length calls \<le> 1"
    using handleDragEnd_calls_short [of active over st] h by simp
  show ?thesis
  proof (cases calls)
    case Nil
    have "localTasks st1 =
        (case (over, originalStatus st) of
           (None, Some s) \<Rightarrow>
             map (\<lambda>t. if filePath t = active then t\<lparr>status := s\<rparr> else t) (localTasks st)
         | _ \<Rightarrow> localTasks st)"
      using h by (auto simp: handleDragEnd_def Let_def split: option.splits if_splits)
    with Nil h idle show ?thesis by (simp add: dragEnd_def)
  next
    case (Cons c cs)
    with short have "cs = []" by simp
    with Cons h idle board_saveTask_fields [of now saveReply loadReply st1 c]
    show ?thesis by (simp add: dragEnd_def)
  qed
qed

theorem dragEnd_idle_witness:
  "snd (handleDragEnd ''a.md'' (Some ''b.md'') example_drag_board) \<noteq> [] \<and>
   localTasks (dragEnd ''a.md'' (Some ''b.md'') ''2024-05-05-12:00'' (Inl ''disk full'')
                 (Inr (tasks example_store)) example_drag_board)
     = tasks (hook (dragEnd ''a.md'' (Some ''b.md'') ''2024-05-05-12:00'' (Inl ''disk full'')
                 (Inr (tasks example_store)) example_drag_board)) \<and>
   snd (handleDragEnd ''a.md'' None example_drag_board) = [] \<and>
   hook (dragEnd ''a.md'' None ''2024-05-05-12:00'' (Inr ()) (Inr []) example_drag_board)
     = hook example_drag_board \<and>
   localTasks (dragEnd ''a.md'' None ''2024-05-05-12:00'' (Inr ()) (Inr []) example_drag_board)
     = [example_task ''a.md'' ''-'' NotStarted, example_task ''b.md'' ''-'' Done]"
proof -
  have h1: "snd (handleDragEnd ''a.md'' (Some ''b.md'') example_drag_board) \<noteq> []"
    by (simp add: board_eval)
  have h2: "snd (handleDragEnd ''a.md'' None example_drag_board) = []"
    by (simp add: board_eval)
  have o: "originalStatus example_drag_board = Some NotStarted"
    and l: "localTasks example_drag_board
              = [example_task ''a.md'' ''-'' InProgress, example_task ''b.md'' ''-'' Done]"
    by (simp_all add: example_drag_board_def)
  note w1 = dragEnd_idle [of "''a.md''" "Some ''b.md''" "''2024-05-05-12:00''" "Inl ''disk full''"
      "Inr (tasks example_store)" example_drag_board]
  note w2 = dragEnd_idle [of "''a.md''" None "''2024-05-05-12:00''" "Inr ()" "Inr []"
      example_drag_board]
  from w1 h1 have c1: "localTasks (dragEnd ''a.md'' (Some ''b.md'') ''2024-05-05-12:00'' (Inl ''disk full'')
                 (Inr (tasks example_store)) example_drag_board)
     = tasks (hook (dragEnd ''a.md'' (Some ''b.md'') ''2024-05-05-12:00'' (Inl ''disk full'')
                 (Inr (tasks example_store)) example_drag_board))" by blast
  from w2 h2 have c2: "hook (dragEnd ''a.md'' None ''2024-05-05-12:00'' (Inr ()) (Inr []) example_drag_board)
     = hook example_drag_board"
    and c3: "localTasks (dragEnd ''a.md'' None ''2024-05-05-12:00'' (Inr ()) (Inr []) example_drag_board)
     = (case (None :: string option, originalStatus example_drag_board) of
           (None, Some s) \<Rightarrow>
             map (\<lambda>t. if filePath t = ''a.md'' then t\<lparr>status := s\<rparr> else t) (localTasks example_drag_board)
         | _ \<Rightarrow> localTasks example_drag_board)"
    by blast+
  from c3 have c4: "localTasks (dragEnd ''a.md'' None ''2024-05-05-12:00'' (Inr ()) (Inr []) example_drag_board)
     = [example_task ''a.md'' ''-'' NotStarted, example_task ''b.md'' ''-'' Done]"
    by (simp add: o l example_task_def)
  from h1 h2 c1 c2 c4 show ?thesis by simp
qed

section \<open>Properties of the sync coordinator\<close>

lemma autoSyncRun_done: "snd (autoSyncRun True gs) = 0 \<and> fst (autoSyncRun True gs) = True"
  by (induction gs) (simp_all add: autoSyncEffect_def split: prod.splits)

lemma autoSyncRun_le_1: "snd (autoSyncRun initialSyncDone gs) \<le> 1"
proof (induction gs arbitrary: initialSyncDone)
  case Nil
  show ?case by simp
next
  case (Cons g gs)
  show ?case
  proof (cases "\<not> isChecking g \<and> isGitRepo g \<and> \<not> initialSyncDone")
    case True
    then have "autoSyncEffect initialSyncDone g = (True, 1)"
      by (simp add: autoSyncEffect_def)
    with autoSyncRun_done [of gs] show ?thesis
      by (cases "autoSyncRun True gs") simp
  next
    case False
    then have "autoSyncEffect initialSyncDone g = (initialSyncDone, 0)"
      by (auto simp: autoSyncEffect_def)
    with Cons.IH [of initialSyncDone] show ?thesis
      by (cases "autoSyncRun initialSyncDone gs") simp
  qed
qed

lemmas git_eval =
  init_renders_def checkGitRepo_def fetchBranches_def fetchCurrentBranch_def
  example_detection_def useGitSync_initial_def autoSyncEffect_def Let_def

text \<open>Two detections that both find a repository trigger the automatic sync once.\<close>

lemma autoSync_twice_detected:
  "autoSyncRun False (activation_renders [example_detection, example_detection] useGitSync_initial)
     = (True, 1)"
  by (simp add: git_eval)

subsection \<open>C6: the automatic sync is single-shot\<close>

text \<open>
  C6. Within one activation (one mounted board, whose initialSyncDone ref starts false),
  however many times the detection sequence runs and whatever the backend replies, the
  auto-sync effect calls handleSync at most once over all the renders.
\<close>

theorem autoSync_at_most_once:
  "snd (autoSyncRun False (activation_renders ds g)) \<le> 1"
  by (rule autoSyncRun_le_1)

subsection \<open>C8: a failed sync is returned as a result\<close>

text \<open>
  C8. sync never raises to its caller. A backend failure \<open>err\<close> is returned as the result
  with pulled, pushed and conflicts all false and the message "prefix + err", and the
  hook ends in the state a backend success with that very result would leave: the result
  recorded in lastSyncResult, isSyncing false. For every reply, sync returns a result,
  records the same result and is no longer syncing.
\<close>

theorem sync_failure_synthesized:
  "sync (Inl err) g =
     (Inr \<lparr>pulled = False, pushed = False, conflicts = False, message = syncErrorPrefix @ err\<rparr>,
      g\<lparr>isSyncing := False,
        lastSyncResult :=
          Some \<lparr>pulled = False, pushed = False, conflicts = False, message = syncErrorPrefix @ err\<rparr>\<rparr>) \<and>
   sync (Inl err) g =
     sync (Inr \<lparr>pulled = False, pushed = False, conflicts = False, message = syncErrorPrefix @ err\<rparr>) g \<and>
   (\<exists>r. fst (sync reply g) = Inr r \<and> lastSyncResult (snd (sync reply g)) = Some r \<and>
        \<not> isSyncing (snd (sync reply g)))"
  by (cases reply) (simp_all add: sync_def Let_def)

subsection \<open>C7: the life of a sync message\<close>












end
